theory Spec2Isabelle
  imports Complex_Main "HOL-Library.Word"
begin

section \<open>The browser client of the audio translation service\<close>

text \<open>
  The development follows \<^verbatim>\<open>frontend/src/App.tsx\<close>: the two pure helpers that turn a
  captured audio frame into the payload of an \<^verbatim>\<open>audio\<close> directive, the message handler of
  the streaming socket, the one-shot upload flow, and the socket side of the recording
  session.
\<close>

subsection \<open>JavaScript numbers and typed arrays\<close>

text \<open>
  A sample of a \<^verbatim>\<open>Float32Array\<close> is a finite number, an infinity or NaN. The finite
  values are kept as reals: every arithmetic step of \<^verbatim>\<open>floatTo16BitPCM\<close> is exact on
  them (a single-precision value clamped to the unit interval, times \<^verbatim>\<open>0x8000\<close> or
  \<^verbatim>\<open>0x7fff\<close>, has at most 39 significant bits and so is a double), hence the real product
  is the number the program computes.
\<close>

datatype jsnum = Num real | PosInf | NegInf | NaN

text \<open>The relational operator \<^verbatim>\<open><\<close>: false as soon as one side is NaN.\<close>

fun js_less :: "jsnum \<Rightarrow> jsnum \<Rightarrow> bool" where
  "js_less NaN _ = False"
| "js_less _ NaN = False"
| "js_less (Num a) (Num b) = (a < b)"
| "js_less NegInf NegInf = False"
| "js_less NegInf _ = True"
| "js_less _ NegInf = False"
| "js_less PosInf _ = False"
| "js_less _ PosInf = True"

text \<open>\<^verbatim>\<open>Math.min\<close> and \<^verbatim>\<open>Math.max\<close> of two arguments: NaN if either is NaN.\<close>

definition Math_min :: "jsnum \<Rightarrow> jsnum \<Rightarrow> jsnum" where
  "Math_min a b = (if a = NaN \<or> b = NaN then NaN else if js_less b a then b else a)"

definition Math_max :: "jsnum \<Rightarrow> jsnum \<Rightarrow> jsnum" where
  "Math_max a b = (if a = NaN \<or> b = NaN then NaN else if js_less a b then b else a)"

text \<open>
  The product of a number with a finite non-zero constant (the only products the program
  forms): NaN stays NaN, an infinity keeps or flips its sign.
\<close>

fun js_times :: "jsnum \<Rightarrow> real \<Rightarrow> jsnum" where
  "js_times (Num a) k = Num (a * k)"
| "js_times NaN k = NaN"
| "js_times PosInf k = (if k = 0 then NaN else if 0 < k then PosInf else NegInf)"
| "js_times NegInf k = (if k = 0 then NaN else if 0 < k then NegInf else PosInf)"

text \<open>Truncation towards zero, the first step of every conversion to an integer type.\<close>

definition js_trunc :: "real \<Rightarrow> int" where
  "js_trunc r = (if r < 0 then \<lceil>r\<rceil> else \<lfloor>r\<rfloor>)"

text \<open>
  Storing a number into an \<^verbatim>\<open>Int16Array\<close> applies ToInt16: NaN and the infinities become
  0, a finite number is truncated and wrapped modulo \<open>2 ^ 16\<close> (the wrap is that of
  \<^term>\<open>word_of_int\<close>).
\<close>

fun ToInt16 :: "jsnum \<Rightarrow> 16 word" where
  "ToInt16 (Num r) = word_of_int (js_trunc r)"
| "ToInt16 _ = 0"

subsection \<open>floatTo16BitPCM\<close>

text \<open>
  \<^verbatim>\<open>const sample = Math.max(-1, Math.min(1, input[i]));\<close>
  \<^verbatim>\<open>output[i] = sample < 0 ? sample * 0x8000 : sample * 0x7fff;\<close>
  The number on the right-hand side, before it is stored, is \<open>scaled_sample\<close>.
\<close>

definition scaled_sample :: "jsnum \<Rightarrow> jsnum" where
  "scaled_sample x =
     (let sample = Math_max (Num (- 1)) (Math_min (Num 1) x)
      in if js_less sample (Num 0) then js_times sample 32768 else js_times sample 32767)"

text \<open>The loop writes one element per input sample, in order, into a fresh array.\<close>

fun floatTo16BitPCM :: "jsnum list \<Rightarrow> 16 word list" where
  "floatTo16BitPCM [] = []"
| "floatTo16BitPCM (x # input) = ToInt16 (scaled_sample x) # floatTo16BitPCM input"

subsection \<open>encodeBase64\<close>

text \<open>
  A typed array is a view on a byte buffer. \<^verbatim>\<open>new Uint8Array(input.buffer)\<close> covers the
  whole buffer whatever the view's offset and length are.
\<close>

record Int16Array =
  buffer :: "8 word list"
  byteOffset :: nat
  alength :: nat

text \<open>
  The array \<^verbatim>\<open>new Int16Array(n)\<close> filled with the given elements owns a buffer of
  \<open>2 * n\<close> bytes; typed arrays use the platform's byte order, little-endian on the
  platforms browsers run on.
\<close>

definition int16_bytes :: "16 word \<Rightarrow> 8 word list" where
  "int16_bytes w = [ucast w, ucast (drop_bit 8 w)]"

definition new_Int16Array :: "16 word list \<Rightarrow> Int16Array" where
  "new_Int16Array ws =
     \<lparr>buffer = concat (map int16_bytes ws), byteOffset = 0, alength = length ws\<rparr>"

text \<open>\<^verbatim>\<open>bytes.subarray(b, e)\<close> for \<open>0 \<le> b \<le> e\<close>: both ends are clamped to the length.\<close>

definition subarray :: "8 word list \<Rightarrow> nat \<Rightarrow> nat \<Rightarrow> 8 word list" where
  "subarray bytes b e = take (min e (length bytes) - min b (length bytes)) (drop b bytes)"

text \<open>
  \<^verbatim>\<open>String.fromCharCode(...bytes)\<close>: one code unit per byte. A binary string is a
  \<^typ>\<open>string\<close>, whose characters are exactly the code units 0 to 255.
\<close>

definition fromCharCode :: "8 word list \<Rightarrow> string" where
  "fromCharCode bytes = map (\<lambda>b. char_of (unat b)) bytes"

text \<open>
  \<^verbatim>\<open>btoa\<close> is the browser's base64 encoder: three bytes become four characters of the
  standard alphabet, a final group of one or two bytes is padded with \<^verbatim>\<open>=\<close>.
\<close>

definition b64_alphabet :: string where
  "b64_alphabet = ''ABCDEFGHIJKLMNOPQRSTUVWXYZabcdefghijklmnopqrstuvwxyz0123456789+/''"

definition b64_char :: "nat \<Rightarrow> char" where
  "b64_char n = b64_alphabet ! (n mod 64)"

fun btoa :: "string \<Rightarrow> string" where
  "btoa [] = []"
| "btoa [a] =
     (let x = (of_char a :: nat)
      in [b64_char (x div 4), b64_char ((x mod 4) * 16), CHR ''='', CHR ''=''])"
| "btoa [a, b] =
     (let x = (of_char a :: nat); y = (of_char b :: nat)
      in [b64_char (x div 4), b64_char ((x mod 4) * 16 + y div 16),
          b64_char ((y mod 16) * 4), CHR ''=''])"
| "btoa (a # b # c # rest) =
     (let x = (of_char a :: nat); y = (of_char b :: nat); z = (of_char c :: nat)
      in [b64_char (x div 4), b64_char ((x mod 4) * 16 + y div 16),
          b64_char ((y mod 16) * 4 + z div 64), b64_char (z mod 64)] @ btoa rest)"

definition chunkSize :: nat where
  "chunkSize = 0x8000"

text \<open>
  \<^verbatim>\<open>for (let i = 0; i < bytes.length; i += chunkSize)\<close>
  \<^verbatim>\<open>  binary += String.fromCharCode(...bytes.subarray(i, i + chunkSize));\<close>
\<close>

function encodeBase64_loop :: "8 word list \<Rightarrow> nat \<Rightarrow> string \<Rightarrow> string" where
  "encodeBase64_loop bytes i binary =
     (if i < length bytes
      then encodeBase64_loop bytes (i + chunkSize)
             (binary @ fromCharCode (subarray bytes i (i + chunkSize)))
      else binary)"
  by pat_completeness auto
termination
  by (relation "measure (\<lambda>(bytes, i, binary). length bytes - i)") (auto simp: chunkSize_def)

definition encodeBase64 :: "Int16Array \<Rightarrow> string" where
  "encodeBase64 input = (let bytes = buffer input in btoa (encodeBase64_loop bytes 0 []))"

text \<open>
  The reference the chunked loop is compared with: the whole buffer turned into one binary
  string and encoded by one call.
\<close>

definition naive_base64 :: "Int16Array \<Rightarrow> string" where
  "naive_base64 input = btoa (fromCharCode (buffer input))"

subsection \<open>The component's state\<close>

text \<open>
  The React state of \<^verbatim>\<open>App\<close>: one field per \<^verbatim>\<open>useState\<close>. Strings are compared,
  tested for emptiness and concatenated only, so their characters stand for the code units
  of the program's strings.
\<close>

datatype LoadingState = Process | Recording

datatype audio_file = File string

record ui_state =
  audioFile :: "audio_file option"
  targetLang :: string
  transcript :: string
  translation :: string
  loading :: "LoadingState option"
  error :: string
  status :: string

subsection \<open>The message handler of the streaming socket\<close>

text \<open>
  \<^verbatim>\<open>ws.onmessage\<close> parses the event's data and reads the fields \<^verbatim>\<open>type\<close>,
  \<^verbatim>\<open>text\<close> and \<^verbatim>\<open>message\<close> of the payload. A field is absent (\<open>None\<close>, the
  program's \<^verbatim>\<open>undefined\<close>) or holds a string, as the events of the protocol do; the
  payload's \<^verbatim>\<open>is_correction\<close> flag is part of the event although the handler never reads
  it. \<open>Unparsable\<close> stands for data on which \<^verbatim>\<open>JSON.parse\<close> or the first property
  access throws (malformed JSON, or the JSON value \<^verbatim>\<open>null\<close>): the handler's
  \<^verbatim>\<open>catch\<close> logs it and leaves the state alone.
\<close>

record payload =
  ptype :: "string option"
  ptext :: "string option"
  pmessage :: "string option"
  is_correction :: "bool option"

datatype ws_data = Unparsable | Payload payload

text \<open>\<^verbatim>\<open>prev + v\<close>: an absent \<open>v\<close> is appended as the string \<^verbatim>\<open>undefined\<close>.\<close>

definition js_concat :: "string \<Rightarrow> string option \<Rightarrow> string" where
  "js_concat prev v = prev @ (case v of None \<Rightarrow> ''undefined'' | Some t \<Rightarrow> t)"

text \<open>\<^verbatim>\<open>v || d\<close>: the default replaces an absent or empty \<open>v\<close>.\<close>

definition js_or :: "string option \<Rightarrow> string \<Rightarrow> string" where
  "js_or v d = (case v of None \<Rightarrow> d | Some m \<Rightarrow> if m = [] then d else m)"

fun onmessage :: "ws_data \<Rightarrow> ui_state \<Rightarrow> ui_state" where
  "onmessage Unparsable s = s"
| "onmessage (Payload p) s =
     (if ptype p = Some ''transcript_delta''
        then s\<lparr>transcript := js_concat (transcript s) (ptext p)\<rparr>
      else if ptype p = Some ''translation_delta''
        then s\<lparr>translation := js_concat (translation s) (ptext p)\<rparr>
      else if ptype p = Some ''status''
        then s\<lparr>status := js_or (pmessage p) ''''\<rparr>
      else if ptype p = Some ''error''
        then s\<lparr>error := js_or (pmessage p) ''Streaming error.''\<rparr>
      else s)"

subsection \<open>The one-shot upload flow\<close>

text \<open>
  \<^verbatim>\<open>processAudio\<close> talks to the two REST endpoints. What the environment answers
  is an input of the model: an awaited promise is fulfilled with a value or throws the
  message that the \<^verbatim>\<open>catch\<close> block will show
  (\<^verbatim>\<open>err instanceof Error ? err.message : String(err)\<close>).
\<close>

datatype 'a outcome = Fulfilled 'a | Thrown string

text \<open>
  One \<^verbatim>\<open>reader.read()\<close>: a result that is not done, whose value may be absent, the
  end of the stream, or a rejection.
\<close>

datatype read_result = ReadValue "8 word list option" | ReadDone | ReadRejects string

text \<open>
  A response: \<^verbatim>\<open>ok\<close>, \<^verbatim>\<open>status\<close>, what \<^verbatim>\<open>text()\<close> settles to, and
  the reads that \<^verbatim>\<open>body?.getReader()\<close> will deliver (\<open>None\<close> when there is no
  reader).
\<close>

record response =
  ok :: bool
  http_status :: nat
  body_text :: "string outcome"
  body_reader :: "read_result list option"

datatype request = TranscribeRequest audio_file | TranslateRequest string string

text \<open>
  The environment of one run. \<open>JSON_text\<close> is the platform's part of
  \<^verbatim>\<open>const { text } = JSON.parse(transcribeText)\<close> followed by \<^verbatim>\<open>text || ""\<close>: the
  string appended to the translate form, or the message of what parsing or destructuring
  throws. The \<^verbatim>\<open>TextDecoder\<close> is a state and a step
  \<^verbatim>\<open>decoder.decode(value, { stream: true })\<close>.
\<close>

record 'd env =
  transcribe_fetch :: "response outcome"
  JSON_text :: "string \<Rightarrow> string outcome"
  translate_fetch :: "response outcome"
  decoder_init :: 'd
  decoder_decode :: "'d \<Rightarrow> 8 word list \<Rightarrow> string \<times> 'd"

text \<open>The decimal digits of a status code, as a template literal prints them.\<close>

definition digit_char :: "nat \<Rightarrow> char" where
  "digit_char d = ''0123456789'' ! (d mod 10)"

fun decimal_digits :: "nat \<Rightarrow> string" where
  "decimal_digits n =
     (if n div 10 = 0 then [digit_char n]
      else decimal_digits (n div 10) @ [digit_char n])"

declare decimal_digits.simps [simp del]

text \<open>
  \<^verbatim>\<open>while (true) { const { value, done } = await reader.read(); if (done) break;\<close>
  \<^verbatim>\<open>  if (value) setTranslation((prev) => prev + decoder.decode(value, { stream: true })); }\<close>
  The list holds the reads that are delivered. When it runs out before the stream is done
  the next \<^verbatim>\<open>read()\<close> never settles and the loop does not return: the result is
  \<open>None\<close>. Otherwise the result is the message thrown, if any, and the state.
\<close>

fun read_loop ::
  "('d \<Rightarrow> 8 word list \<Rightarrow> string \<times> 'd) \<Rightarrow> 'd \<Rightarrow> read_result list \<Rightarrow> ui_state
     \<Rightarrow> (string option \<times> ui_state) option" where
  "read_loop dec d [] s = None"
| "read_loop dec d (ReadDone # rs) s = Some (None, s)"
| "read_loop dec d (ReadRejects m # rs) s = Some (Some m, s)"
| "read_loop dec d (ReadValue None # rs) s = read_loop dec d rs s"
| "read_loop dec d (ReadValue (Some v) # rs) s =
     (case dec d v of
        (chunk, d') \<Rightarrow> read_loop dec d' rs (s\<lparr>translation := translation s @ chunk\<rparr>))"

text \<open>
  The \<^verbatim>\<open>try\<close> block of \<^verbatim>\<open>processAudio\<close>, from the state left by the setters before
  it: the message thrown (if any), the state, and the requests issued, in order.
\<close>

definition processAudio_try ::
  "'d env \<Rightarrow> audio_file \<Rightarrow> ui_state \<Rightarrow> (string option \<times> ui_state \<times> request list) option" where
  "processAudio_try env f s =
     (let reqs1 = [TranscribeRequest f] in
      case transcribe_fetch env of
        Thrown m \<Rightarrow> Some (Some m, s, reqs1)
      | Fulfilled transcribeRes \<Rightarrow>
     (case body_text transcribeRes of
        Thrown m \<Rightarrow> Some (Some m, s, reqs1)
      | Fulfilled transcribeText \<Rightarrow>
      if \<not> ok transcribeRes
      then Some (Some (if transcribeText \<noteq> [] then transcribeText
                       else ''Transcribe '' @ decimal_digits (http_status transcribeRes)),
                 s, reqs1)
      else
     (case JSON_text env transcribeText of
        Thrown m \<Rightarrow> Some (Some m, s, reqs1)
      | Fulfilled text \<Rightarrow>
      let reqs2 = reqs1 @ [TranslateRequest text (targetLang s)] in
     (case translate_fetch env of
        Thrown m \<Rightarrow> Some (Some m, s, reqs2)
      | Fulfilled translateRes \<Rightarrow>
      if \<not> ok translateRes
      then (case body_text translateRes of
              Thrown m \<Rightarrow> Some (Some m, s, reqs2)
            | Fulfilled errText \<Rightarrow>
                Some (Some (if errText \<noteq> [] then errText
                            else ''Translate '' @ decimal_digits (http_status translateRes)),
                      s, reqs2))
      else
     (case body_reader translateRes of
        None \<Rightarrow>
          (case body_text translateRes of
             Thrown m \<Rightarrow> Some (Some m, s, reqs2)
           | Fulfilled fallbackText \<Rightarrow>
               Some (None, s\<lparr>translation := fallbackText, status := ''''\<rparr>, reqs2))
      | Some reads \<Rightarrow>
          (case read_loop (decoder_decode env) (decoder_init env) reads
                  (s\<lparr>translation := ''''\<rparr>) of
             None \<Rightarrow> None
           | Some (Some m, s') \<Rightarrow> Some (Some m, s', reqs2)
           | Some (None, s') \<Rightarrow> Some (None, s'\<lparr>status := ''''\<rparr>, reqs2)))))))"

text \<open>
  The whole function: the guard on the file, the setters before the \<^verbatim>\<open>try\<close>, the
  \<^verbatim>\<open>catch\<close> (\<^verbatim>\<open>setError(msg)\<close>) and the \<^verbatim>\<open>finally\<close>
  (\<^verbatim>\<open>setLoading(null); setStatus("")\<close>). The target language is the one of the render
  that called it. The result is the state when the function returns and the requests it
  issued; handlers that run while it awaits are not part of the model.
\<close>

definition processAudio ::
  "'d env \<Rightarrow> audio_file option \<Rightarrow> ui_state \<Rightarrow> (ui_state \<times> request list) option" where
  "processAudio env file s =
     (case file of
        None \<Rightarrow> Some (s\<lparr>error := ''Record something first.''\<rparr>, [])
      | Some f \<Rightarrow>
          (case processAudio_try env f
                  (s\<lparr>error := '''', transcript := '''', translation := '''',
                     status := ''Translating...'', loading := Some Process\<rparr>) of
             None \<Rightarrow> None
           | Some (thrown, s', reqs) \<Rightarrow>
               Some ((case thrown of None \<Rightarrow> s' | Some msg \<Rightarrow> s'\<lparr>error := msg\<rparr>)
                       \<lparr>loading := None, status := ''''\<rparr>, reqs)))"

text \<open>
  \<^verbatim>\<open>processAudio\<close> of the earlier revision of the component
  (\<^verbatim>\<open>src/unnamed/part_000\<close>), which has no transcript state: the same statements
  without \<^verbatim>\<open>setTranscript("")\<close>, so the field keeps its value.
\<close>

definition processAudio_rev0 ::
  "'d env \<Rightarrow> audio_file option \<Rightarrow> ui_state \<Rightarrow> (ui_state \<times> request list) option" where
  "processAudio_rev0 env file s =
     (case file of
        None \<Rightarrow> Some (s\<lparr>error := ''Record something first.''\<rparr>, [])
      | Some f \<Rightarrow>
          (case processAudio_try env f
                  (s\<lparr>error := [], translation := [],
                     status := ''Translating...'', loading := Some Process\<rparr>) of
             None \<Rightarrow> None
           | Some (thrown, s', reqs) \<Rightarrow>
               Some ((case thrown of None \<Rightarrow> s' | Some msg \<Rightarrow> s'\<lparr>error := msg\<rparr>)
                       \<lparr>loading := None, status := []\<rparr>, reqs)))"

text \<open>
  The chunks the decoder produces for the values of the reads, in arrival order: what the
  displayed translation is compared with.
\<close>

fun decoded_chunks ::
  "('d \<Rightarrow> 8 word list \<Rightarrow> string \<times> 'd) \<Rightarrow> 'd \<Rightarrow> 8 word list option list \<Rightarrow> string list" where
  "decoded_chunks dec d [] = []"
| "decoded_chunks dec d (None # vs) = decoded_chunks dec d vs"
| "decoded_chunks dec d (Some v # vs) =
     (case dec d v of (chunk, d') \<Rightarrow> chunk # decoded_chunks dec d' vs)"

subsection \<open>The socket side of a recording session\<close>

text \<open>
  What the client sends depends on the refs of the component and on the ready state of its
  sockets only; the setters of the React state (\<^verbatim>\<open>setError\<close>, \<^verbatim>\<open>setStatus\<close>,
  \<^verbatim>\<open>setLoading\<close>, ...) decide no branch of a handler and send nothing, so the model of
  the session leaves them out. Handlers run to completion, one at a time, as the event
  loop runs them.
\<close>

datatype readyState = CONNECTING | OPEN | CLOSING | CLOSED

text \<open>
  The three messages the program builds with \<^verbatim>\<open>JSON.stringify\<close>:
  \<^verbatim>\<open>{type: "start", target_language}\<close>, \<^verbatim>\<open>{type: "audio", data}\<close> and
  \<^verbatim>\<open>{type: "stop"}\<close>.
\<close>

datatype directive = Start string | Audio string | Stop

text \<open>
  A socket is its ready state and the target language captured by the closure of its
  handlers. The sockets are kept in the order \<^verbatim>\<open>new WebSocket\<close> made them; a ref
  holds an index. \<open>sent\<close> records every call of \<^verbatim>\<open>send\<close>: the socket, the ready state
  it had at the call, and the message. \<open>processors\<close> holds, for every script processor
  created, whether it is still connected (only a connected one fires
  \<^verbatim>\<open>onaudioprocess\<close>); \<^verbatim>\<open>sourceRef\<close>, \<^verbatim>\<open>audioContextRef\<close> and
  \<^verbatim>\<open>mediaStreamRef\<close> are set and cleared together with \<^verbatim>\<open>processorRef\<close>.
\<close>

record socket =
  readyState :: readyState
  lang :: string

record conn =
  sockets :: "socket list"
  wsRef :: "nat option"
  awaiting_mic :: "nat list"
  processors :: "bool list"
  processorRef :: "nat option"
  sent :: "(nat \<times> readyState \<times> directive) list"

definition ready :: "nat \<Rightarrow> conn \<Rightarrow> readyState option" where
  "ready n c = (if n < length (sockets c) then Some (readyState (sockets c ! n)) else None)"



text \<open>
  \<^verbatim>\<open>ws.send(msg)\<close>: the call is recorded with the socket's ready state. The call
  throws on a connecting socket, transmits on an open one and drops the message on a
  closing or closed one.
\<close>

definition ws_send :: "nat \<Rightarrow> directive \<Rightarrow> conn \<Rightarrow> conn" where
  "ws_send n m c =
     (case ready n c of
        None \<Rightarrow> c
      | Some r \<Rightarrow> c\<lparr>sent := sent c @ [(n, r, m)]\<rparr>)"


definition disconnect :: "nat \<Rightarrow> conn \<Rightarrow> conn" where
  "disconnect p c =
     (if p < length (processors c) then c\<lparr>processors := (processors c)[p := False]\<rparr> else c)"





text \<open>The payload of an audio directive: the frame as PCM16, base64-encoded.\<close>

definition audio_payload :: "jsnum list \<Rightarrow> string" where
  "audio_payload input = encodeBase64 (new_Int16Array (floatTo16BitPCM input))"



text \<open>
  What can happen to the component. A click calls \<^verbatim>\<open>startRecording\<close> (with the target
  language of the render) or \<^verbatim>\<open>stopRecording\<close>; both are allowed at any time, which
  covers every state the button can be in (a \<^verbatim>\<open>startRecording\<close> whose constructor
  throws ends in \<^verbatim>\<open>stopRecording\<close>, which is the effect of \<open>ClickStop\<close>). A socket
  fires \<^verbatim>\<open>open\<close> while connecting, \<^verbatim>\<open>close\<close> once (the socket is closed when the
  handler runs) and \<^verbatim>\<open>error\<close> at any time; the handlers of both call
  \<^verbatim>\<open>stopRecording\<close>. The microphone request of an opened socket is granted, or it is
  refused and the \<^verbatim>\<open>catch\<close> of \<^verbatim>\<open>ws.onopen\<close> calls \<^verbatim>\<open>stopRecording\<close>; a
  connected processor delivers a frame. An event that cannot happen in the current state
  leaves it unchanged.
\<close>

datatype event =
    ClickRecord string
  | ClickStop
  | SocketOpen nat
  | SocketError nat
  | SocketClose nat
  | MicGranted nat
  | MicDenied nat
  | AudioProcess nat "jsnum list"
  | Unmount




text \<open>The messages of the send calls made on one socket, in order.\<close>

definition sent_on :: "nat \<Rightarrow> conn \<Rightarrow> directive list" where
  "sent_on n c = map (\<lambda>(k, r, m). m) (filter (\<lambda>(k, r, m). k = n) (sent c))"



subsection \<open>Notions used in the proofs\<close>

text \<open>
  The order of a connection as an automaton over the messages sent so far; \<open>Violated\<close>
  is the sink reached by any message out of order.
\<close>

datatype phase = Fresh | Streaming | Stopped | Violated

fun advance :: "phase \<Rightarrow> directive \<Rightarrow> phase" where
  "advance Fresh (Start l) = Streaming"
| "advance Streaming (Audio d) = Streaming"
| "advance Streaming Stop = Stopped"
| "advance _ _ = Violated"

definition phase_of :: "directive list \<Rightarrow> phase" where
  "phase_of ms = foldl advance Fresh ms"

text \<open>
  The invariant of the session ties the ready state of a socket to the phase of its
  messages: nothing was sent on a connecting socket, an open socket has received its start
  and no stop, and no socket is out of order.
\<close>

fun phase_fits :: "readyState \<Rightarrow> phase \<Rightarrow> bool" where
  "phase_fits CONNECTING p = (p = Fresh)"
| "phase_fits OPEN p = (p = Streaming)"
| "phase_fits CLOSING p = (p \<noteq> Violated)"
| "phase_fits CLOSED p = (p \<noteq> Violated)"

definition sock_inv :: "conn \<Rightarrow> nat \<Rightarrow> bool" where
  "sock_inv c n = phase_fits (readyState (sockets c ! n)) (phase_of (sent_on n c))"

definition entry_inv :: "conn \<Rightarrow> nat \<times> readyState \<times> directive \<Rightarrow> bool" where
  "entry_inv c e =
     (case e of (k, r, m) \<Rightarrow>
        k < length (sockets c) \<and> r = OPEN \<and> (\<forall>l. m = Start l \<longrightarrow> l = lang (sockets c ! k)))"

definition conn_inv :: "conn \<Rightarrow> bool" where
  "conn_inv c \<longleftrightarrow>
     (\<forall>n < length (sockets c). sock_inv c n) \<and>
     (\<forall>e \<in> set (sent c). entry_inv c e) \<and>
     (\<forall>w. wsRef c = Some w \<longrightarrow> w < length (sockets c))"

text \<open>
  Where payloads come from: the language of a socket from a click on Record, the data of
  an audio directive from a frame delivered by a processor.
\<close>

definition origin :: "event list \<Rightarrow> conn \<Rightarrow> bool" where
  "origin es c \<longleftrightarrow>
     (\<forall>sk \<in> set (sockets c). ClickRecord (lang sk) \<in> set es) \<and>
     (\<forall>e \<in> set (sent c). \<forall>d. snd (snd e) = Audio d \<longrightarrow>
        (\<exists>p input. AudioProcess p input \<in> set es \<and> d = audio_payload input))"

text \<open>Concrete environments for the examples.\<close>

definition ascii_decode :: "unit \<Rightarrow> 8 word list \<Rightarrow> string \<times> unit" where
  "ascii_decode d bytes = (fromCharCode bytes, d)"

definition example_response :: "bool \<Rightarrow> nat \<Rightarrow> string \<Rightarrow> read_result list option \<Rightarrow> response" where
  "example_response k code body reader =
     \<lparr>ok = k, http_status = code, body_text = Fulfilled body, body_reader = reader\<rparr>"

definition example_env :: "response \<Rightarrow> response \<Rightarrow> unit env" where
  "example_env r1 r2 =
     \<lparr>transcribe_fetch = Fulfilled r1,
      JSON_text = (\<lambda>b. if b = ''{text: hello}'' then Fulfilled ''hello'' else Thrown ''SyntaxError''),
      translate_fetch = Fulfilled r2,
      decoder_init = (),
      decoder_decode = ascii_decode\<rparr>"

definition example_state :: ui_state where
  "example_state = \<lparr>audioFile = Some (File ''a.wav''), targetLang = ''Arabic'', transcript = ''old'',
     translation = ''old'', loading = None, error = ''old'', status = []\<rparr>"


section \<open>The relay of the backend, modelled from the specification\<close>

text \<open>
  The streaming relay (reconciliation, chunking, redundancy filter, translation relay) is
  the backend service. Only its client and the README that documents its configuration
  are among the sources, so the definitions of this section follow the words of the
  specification.
\<close>

subsection \<open>Configuration\<close>

text \<open>
  Modelled from the spec: the configuration surface of the relay (section 6), which the
  missing backend reads from the environment: chunk size threshold in characters, chunk
  emission interval in seconds, minimum alphanumeric count, redundancy overlap ratio
  threshold and redundancy minimum token count.
\<close>

record relay_config =
  chunk_chars :: nat
  chunk_interval :: real
  min_alnum :: nat
  redundancy_overlap :: real
  redundancy_min_tokens :: nat

text \<open>
  Modelled from the spec: a configuration of the missing backend, with the values the
  README gives for \<^verbatim>\<open>TRANSLATION_CHUNK_CHARS\<close>, \<^verbatim>\<open>TRANSLATION_CHUNK_INTERVAL\<close>,
  \<^verbatim>\<open>TRANSLATION_MIN_ALNUM\<close>, \<^verbatim>\<open>TRANSLATION_REDUNDANCY_OVERLAP\<close> and
  \<^verbatim>\<open>TRANSLATION_REDUNDANCY_MIN_TOKENS\<close>.
\<close>

definition readme_config :: relay_config where
  "readme_config = \<lparr>chunk_chars = 40, chunk_interval = 7 / 10, min_alnum = 2,
     redundancy_overlap = 85 / 100, redundancy_min_tokens = 3\<rparr>"

text \<open>
  Modelled from the spec: what the missing Chunker and Redundancy Filter count as an
  alphanumeric character; here the ASCII letters and digits.
\<close>

definition is_alnum :: "char \<Rightarrow> bool" where
  "is_alnum ch =
     (let n = (of_char ch :: nat)
      in (48 \<le> n \<and> n \<le> 57) \<or> (65 \<le> n \<and> n \<le> 90) \<or> (97 \<le> n \<and> n \<le> 122))"

text \<open>
  Modelled from the spec: the count of alphanumeric characters of a span, which the
  missing Chunker and Redundancy Filter compare with the configured minimum.
\<close>

definition alnum_count :: "string \<Rightarrow> nat" where
  "alnum_count s = length (filter is_alnum s)"

subsection \<open>Reconciliation\<close>

text \<open>
  Modelled from the spec: the transcript fragment of section 3, received by the missing
  ASR relay: its text, the flag that says whether it replaces a trailing portion of the
  running transcript or appends, the span it declares to supersede (in characters), and
  its sequence number.
\<close>

record fragment =
  fragment_text :: string
  replaces_tail :: bool
  replaced_span :: nat
  seq_no :: nat

text \<open>
  Modelled from the spec: the running transcript of a session and its frozen boundary,
  the offset before which the text has been chunked and accepted (glossary); state of the
  missing Session Controller.
\<close>

record running_transcript =
  running :: string
  frozen_boundary :: nat

text \<open>
  Modelled from the spec: how much of the existing tail a fragment supersedes in the
  missing reconciler (section 4.2): the span it declares, at most the whole transcript,
  and nothing when it appends.
\<close>

definition superseded :: "fragment \<Rightarrow> running_transcript \<Rightarrow> nat" where
  "superseded f t = (if replaces_tail f then min (replaced_span f) (length (running t)) else 0)"

text \<open>
  Modelled from the spec: the overlap of a correction with frozen text in the missing
  reconciler (section 4.2): the part of the superseded span that lies before the frozen
  boundary. It is also the length of the conflicting prefix of the fragment.
\<close>

definition conflict :: "fragment \<Rightarrow> running_transcript \<Rightarrow> nat" where
  "conflict f t = superseded f t - (length (running t) - frozen_boundary t)"

text \<open>
  Modelled from the spec: the reconciler of section 4.2 (missing backend code). It
  replaces exactly the superseded span by the fragment's text and leaves everything
  before that span untouched. When the span reaches into frozen text, the frozen text
  stays, the conflicting prefix of the fragment is discarded and the rest of the fragment
  is applied.
\<close>

definition reconcile :: "fragment \<Rightarrow> running_transcript \<Rightarrow> running_transcript" where
  "reconcile f t =
     (if conflict f t = 0
      then t\<lparr>running := take (length (running t) - superseded f t) (running t) @ fragment_text f\<rparr>
      else t\<lparr>running := take (frozen_boundary t) (running t) @ drop (conflict f t) (fragment_text f)\<rparr>)"

text \<open>
  Modelled from the spec: what happens to the running transcript of a session of the
  missing relay: a fragment is reconciled, or a chunk candidate ending at an offset is
  accepted by the Redundancy Filter.
\<close>

datatype transcript_event = Reconciled fragment | Accepted nat

text \<open>
  Modelled from the spec: the effect of one event on the transcript state of the missing
  relay. Accepting a chunk moves the frozen boundary forward to its end offset (a boundary
  never moves back nor beyond the text).
\<close>

fun apply_event :: "transcript_event \<Rightarrow> running_transcript \<Rightarrow> running_transcript" where
  "apply_event (Reconciled f) t = reconcile f t"
| "apply_event (Accepted k) t =
     (if frozen_boundary t \<le> k \<and> k \<le> length (running t) then t\<lparr>frozen_boundary := k\<rparr> else t)"

text \<open>
  Modelled from the spec: a sequence of events applied in order to the transcript state of
  the missing relay (fragments are applied in sequence order).
\<close>

definition apply_events :: "transcript_event list \<Rightarrow> running_transcript \<Rightarrow> running_transcript" where
  "apply_events es t = foldl (\<lambda>t e. apply_event e t) t es"

text \<open>
  Modelled from the spec: the transcript state of a session of the missing relay when it
  is created: no text, nothing frozen.
\<close>

definition new_transcript :: running_transcript where
  "new_transcript = \<lparr>running = [], frozen_boundary = 0\<rparr>"

text \<open>
  Modelled from the spec: the frozen text of the missing relay's transcript, the text
  before the frozen boundary.
\<close>

definition frozen_text :: "running_transcript \<Rightarrow> string" where
  "frozen_text t = take (frozen_boundary t) (running t)"

subsection \<open>Chunker\<close>

text \<open>
  Modelled from the spec: the three triggers of the missing Chunker (section 4.3).
\<close>

datatype trigger = SizeReached | IntervalElapsed | FlushRequested

text \<open>
  Modelled from the spec: the trigger conditions of the missing Chunker (section 4.3),
  first to fire wins: the un-frozen span has reached the size threshold and holds the
  minimum of alphanumeric characters; the interval since the last emission has elapsed
  and the span is non-empty and holds that minimum; the Session Controller requests a
  flush, which bypasses the thresholds.
\<close>

definition chunker_trigger :: "relay_config \<Rightarrow> string \<Rightarrow> real \<Rightarrow> bool \<Rightarrow> trigger option" where
  "chunker_trigger cfg candidate elapsed flush =
     (if chunk_chars cfg \<le> length candidate \<and> min_alnum cfg \<le> alnum_count candidate
        then Some SizeReached
      else if chunk_interval cfg \<le> elapsed \<and> candidate \<noteq> [] \<and>
              min_alnum cfg \<le> alnum_count candidate
        then Some IntervalElapsed
      else if flush then Some FlushRequested
      else None)"

subsection \<open>Translation Relay\<close>

text \<open>
  Modelled from the spec: the per-session output queue of the missing Translation Relay
  (sections 3, 4.5 and 9). Chunks are numbered in submission order and fragments are
  attributed to their chunk. The queue knows how many chunks were submitted, the head
  chunk whose fragments are being released, the fragments it holds for later chunks (in
  arrival order), the chunks whose upstream response has ended, and the fragments
  released to the client so far.
\<close>

record output_queue =
  submitted :: nat
  head_chunk :: nat
  held :: "(nat \<times> string) list"
  finished :: "nat list"
  outbound :: "(nat \<times> string) list"

text \<open>
  Modelled from the spec: the events of the missing Translation Relay: a chunk is
  submitted, the upstream delivers a fragment for a chunk, the upstream response of a chunk
  ends.
\<close>

datatype relay_event = Submit | Arrive nat string | Finish nat

text \<open>
  Modelled from the spec: the number of finished chunks the missing relay's queue has not
  moved past yet.
\<close>

definition pending_finished :: "output_queue \<Rightarrow> nat" where
  "pending_finished q = length (filter (\<lambda>n. head_chunk q \<le> n) (finished q))"

text \<open>
  Modelled from the spec: the move of the missing relay's queue to the next chunk, whose
  held fragments are released in arrival order.
\<close>

definition release_next :: "output_queue \<Rightarrow> output_queue" where
  "release_next q =
     q\<lparr>head_chunk := Suc (head_chunk q),
       outbound := outbound q @ filter (\<lambda>(n, x). n = Suc (head_chunk q)) (held q),
       held := filter (\<lambda>(n, x). n \<noteq> Suc (head_chunk q)) (held q)\<rparr>"

lemma pending_finished_release:
  assumes "head_chunk q \<in> set (finished q)"
  shows "pending_finished (release_next q) < pending_finished q"
proof -
  let ?h = "head_chunk q"
  let ?xs = "filter (\<lambda>n. ?h \<le> n) (finished q)"
  have "filter (\<lambda>n. Suc ?h \<le> n) (finished q) = filter (\<lambda>n. n \<noteq> ?h) ?xs"
    by (auto intro: filter_cong)
  moreover have "?h \<in> set ?xs"
    using assms by simp
  then have "length (filter (\<lambda>n. n \<noteq> ?h) ?xs) < length ?xs"
    by (rule length_filter_less) simp
  ultimately have "length (filter (\<lambda>n. Suc ?h \<le> n) (finished q)) < length ?xs"
    by (simp only:)
  then show ?thesis
    by (simp add: pending_finished_def release_next_def)
qed

text \<open>
  Modelled from the spec: the missing relay's queue moves past every chunk whose response
  has ended (the fragments of a chunk are fully flushed before those of the next go
  out). The loop ends because each move passes one finished chunk.
\<close>

function advance_head :: "output_queue \<Rightarrow> output_queue" where
  "advance_head q =
     (if head_chunk q \<in> set (finished q) then advance_head (release_next q) else q)"
  by pat_completeness auto
termination
  by (relation "measure pending_finished") (simp_all add: pending_finished_release)

declare advance_head.simps [simp del]

text \<open>
  Modelled from the spec: one event of the missing Translation Relay. A fragment of the
  head chunk is released as it arrives, a fragment of a later chunk is held; the end of a
  response lets the queue move on. The upstream answers submitted chunks only and sends
  nothing for a chunk after its end; any other event is ignored.
\<close>

fun relay_step :: "relay_event \<Rightarrow> output_queue \<Rightarrow> output_queue" where
  "relay_step Submit q = q\<lparr>submitted := Suc (submitted q)\<rparr>"
| "relay_step (Arrive n x) q =
     (if n < submitted q \<and> n \<notin> set (finished q)
      then (if n = head_chunk q then q\<lparr>outbound := outbound q @ [(n, x)]\<rparr>
            else q\<lparr>held := held q @ [(n, x)]\<rparr>)
      else q)"
| "relay_step (Finish n) q =
     (if n < submitted q \<and> n \<notin> set (finished q)
      then advance_head (q\<lparr>finished := finished q @ [n]\<rparr>)
      else q)"

text \<open>
  Modelled from the spec: an interleaving of submissions, arrivals and ends, handled in
  order by the single writer of the missing relay's queue.
\<close>

definition relay_run :: "relay_event list \<Rightarrow> output_queue \<Rightarrow> output_queue" where
  "relay_run es q = foldl (\<lambda>q e. relay_step e q) q es"

text \<open>
  Modelled from the spec: the queue of the missing relay when the session starts.
\<close>

definition new_queue :: output_queue where
  "new_queue = \<lparr>submitted = 0, head_chunk = 0, held = [], finished = [], outbound = []\<rparr>"

text \<open>
  Modelled from the spec: the fragments of a list that are attributed to one chunk, in the
  order of the list (output fragments of the missing relay are attributed to their
  originating chunk, section 4.5).
\<close>

definition of_chunk :: "nat \<Rightarrow> (nat \<times> string) list \<Rightarrow> (nat \<times> string) list" where
  "of_chunk n xs = filter (\<lambda>e. fst e = n) xs"

text \<open>
  Modelled from the spec: the translated fragments the upstream of the missing relay
  delivers in an interleaving, in arrival order, read off the events alone: a fragment
  counts when its chunk has been submitted and the response of that chunk has not ended.
  The first two arguments are the number of chunks submitted and the chunks whose
  response has ended before the events.
\<close>

fun arrivals_from :: "nat \<Rightarrow> nat list \<Rightarrow> relay_event list \<Rightarrow> (nat \<times> string) list" where
  "arrivals_from k ended [] = []"
| "arrivals_from k ended (Submit # es) = arrivals_from (Suc k) ended es"
| "arrivals_from k ended (Arrive n x # es) =
     (if n < k \<and> n \<notin> set ended then (n, x) # arrivals_from k ended es
      else arrivals_from k ended es)"
| "arrivals_from k ended (Finish n # es) =
     (if n < k \<and> n \<notin> set ended then arrivals_from k (ended @ [n]) es
      else arrivals_from k ended es)"

text \<open>
  Modelled from the spec: the translated fragments delivered to the missing relay in an
  interleaving that starts with the session.
\<close>

definition arrivals :: "relay_event list \<Rightarrow> (nat \<times> string) list" where
  "arrivals es = arrivals_from 0 [] es"

text \<open>The fragments the queue has taken and not lost: released or held.\<close>

definition kept :: "output_queue \<Rightarrow> (nat \<times> string) set" where
  "kept q = set (outbound q) \<union> set (held q)"

text \<open>
  The invariant of the queue: released fragments are in chunk order and belong to chunks
  up to the head, held fragments belong to later chunks, and every chunk before the head
  has finished.
\<close>

definition queue_inv :: "output_queue \<Rightarrow> bool" where
  "queue_inv q \<longleftrightarrow>
     sorted (map fst (outbound q)) \<and>
     (\<forall>e \<in> set (outbound q). fst e \<le> head_chunk q) \<and>
     (\<forall>e \<in> set (held q). head_chunk q < fst e) \<and>
     (\<forall>n < head_chunk q. n \<in> set (finished q)) \<and>
     (\<forall>n \<in> set (finished q). n < submitted q)"

section \<open>Properties of the helpers\<close>

lemma js_trunc_bounds:
  assumes "- 32768 \<le> r" and "r \<le> 32767"
  shows "- 32768 \<le> js_trunc r \<and> js_trunc r \<le> 32767"
proof (cases "r < 0")
  case True
  have "\<lceil>- 32768 :: real\<rceil> \<le> \<lceil>r\<rceil>" using assms(1) by (rule ceiling_mono)
  moreover have "\<lceil>r\<rceil> \<le> 0" using True by (simp add: ceiling_le_iff)
  ultimately show ?thesis using True by (simp add: js_trunc_def)
next
  case False
  have "\<lfloor>r\<rfloor> \<le> \<lfloor>32767 :: real\<rfloor>" using assms(2) by (rule floor_mono)
  moreover have "0 \<le> \<lfloor>r\<rfloor>" using False by simp
  ultimately show ?thesis using False by (simp add: js_trunc_def)
qed

lemma scaled_sample_cases:
  "(x = NaN \<and> scaled_sample x = NaN) \<or>
   (\<exists>r. scaled_sample x = Num r \<and> - 32768 \<le> r \<and> r \<le> 32767)"
proof (cases x)
  case (Num a)
  then show ?thesis
    by (auto simp: scaled_sample_def Math_min_def Math_max_def Let_def)
next
  case PosInf
  then show ?thesis by (simp add: scaled_sample_def Math_min_def Math_max_def)
next
  case NegInf
  then show ?thesis by (simp add: scaled_sample_def Math_min_def Math_max_def)
next
  case NaN
  then show ?thesis by (simp add: scaled_sample_def Math_min_def Math_max_def)
qed

lemma sint_ToInt16_Num:
  assumes "- 32768 \<le> r" and "r \<le> 32767"
  shows "sint (ToInt16 (Num r)) = js_trunc r"
proof -
  have "- 32768 \<le> js_trunc r \<and> js_trunc r \<le> 32767"
    using assms by (rule js_trunc_bounds)
  then have "signed_take_bit 15 (js_trunc r) = js_trunc r"
    by (intro signed_take_bit_int_eq_self) simp_all
  then show ?thesis
    by (simp add: sint_sbintrunc')
qed

lemma length_floatTo16BitPCM: "length (floatTo16BitPCM input) = length input"
  by (induction input) simp_all

lemma nth_floatTo16BitPCM:
  "i < length input \<Longrightarrow> floatTo16BitPCM input ! i = ToInt16 (scaled_sample (input ! i))"
proof (induction input arbitrary: i)
  case Nil
  then show ?case by simp
next
  case (Cons x input)
  then show ?case by (cases i) simp_all
qed

text \<open>
  Claim C8. For every input, \<open>floatTo16BitPCM\<close> returns an array of the same length
  whose elements lie between \<open>-32768\<close> and \<open>32767\<close>. The number stored is the
  clamped sample scaled by 32768 (negative) or 32767 (otherwise); it lies in that range
  before it is stored, so the conversion to 16 bits only truncates the fraction and never
  wraps around, also for inputs outside the unit interval and for the infinities. A NaN
  sample passes the clamp unchanged and is stored as 0.
\<close>

theorem floatTo16BitPCM_range:
  "length (floatTo16BitPCM input) = length input \<and>
   (\<forall>i < length input.
      - 32768 \<le> sint (floatTo16BitPCM input ! i) \<and> sint (floatTo16BitPCM input ! i) \<le> 32767 \<and>
      (case scaled_sample (input ! i) of
         Num r \<Rightarrow> - 32768 \<le> r \<and> r \<le> 32767 \<and> sint (floatTo16BitPCM input ! i) = js_trunc r
       | NaN \<Rightarrow> input ! i = NaN \<and> floatTo16BitPCM input ! i = 0
       | _ \<Rightarrow> False))"
proof (intro conjI allI impI)
  show "length (floatTo16BitPCM input) = length input" by (rule length_floatTo16BitPCM)
next
  fix i assume i: "i < length input"
  let ?w = "floatTo16BitPCM input ! i"
  have w: "?w = ToInt16 (scaled_sample (input ! i))" using i by (rule nth_floatTo16BitPCM)
  from scaled_sample_cases [of "input ! i"]
  consider (nan) "input ! i = NaN" "scaled_sample (input ! i) = NaN"
    | (num) r where "scaled_sample (input ! i) = Num r" "- 32768 \<le> r" "r \<le> 32767"
    by blast
  then have "- 32768 \<le> sint ?w \<and> sint ?w \<le> 32767 \<and>
      (case scaled_sample (input ! i) of
         Num r \<Rightarrow> - 32768 \<le> r \<and> r \<le> 32767 \<and> sint ?w = js_trunc r
       | NaN \<Rightarrow> input ! i = NaN \<and> ?w = 0
       | _ \<Rightarrow> False)"
  proof cases
    case nan
    then show ?thesis by (simp add: w)
  next
    case (num r)
    have "sint ?w = js_trunc r"
      unfolding w num(1) using num(2,3) by (rule sint_ToInt16_Num)
    with js_trunc_bounds [OF num(2,3)] num show ?thesis by simp
  qed
  then show "- 32768 \<le> sint ?w" "sint ?w \<le> 32767"
    "case scaled_sample (input ! i) of
         Num r \<Rightarrow> - 32768 \<le> r \<and> r \<le> 32767 \<and> sint ?w = js_trunc r
       | NaN \<Rightarrow> input ! i = NaN \<and> ?w = 0
       | _ \<Rightarrow> False"
    by simp_all
qed

theorem floatTo16BitPCM_range_witness:
  "length (floatTo16BitPCM [Num (1/2), Num (- 2), PosInf, NaN]) = 4 \<and>
   map sint (floatTo16BitPCM [Num (1/2), Num (- 2), PosInf, NaN]) = [16383, - 32768, 32767, 0]"
  using floatTo16BitPCM_range [of "[Num (1/2), Num (- 2), PosInf, NaN]"]
  by (simp add: scaled_sample_def Math_min_def Math_max_def js_trunc_def)

lemma subarray_take_drop: "b \<le> e \<Longrightarrow> subarray bytes b e = take (e - b) (drop b bytes)"
proof -
  assume be: "b \<le> e"
  have "take (min e (length bytes) - min b (length bytes)) (drop b bytes) = take (e - b) (drop b bytes)"
  proof (cases "e \<le> length bytes")
    case True
    with be show ?thesis by (simp add: min_def)
  next
    case False
    then have "length (drop b bytes) \<le> min e (length bytes) - min b (length bytes)" 
      by (simp add: min_def)
    moreover from False be have "length (drop b bytes) \<le> e - b" by simp
    ultimately show ?thesis by simp
  qed
  then show ?thesis by (simp add: subarray_def)
qed

lemma fromCharCode_append: "fromCharCode (xs @ ys) = fromCharCode xs @ fromCharCode ys"
  by (simp add: fromCharCode_def)

lemma encodeBase64_loop_eq: "encodeBase64_loop bytes i binary = binary @ fromCharCode (drop i bytes)"
proof (induction bytes i binary rule: encodeBase64_loop.induct)
  case (1 bytes i binary)
  show ?case
  proof (cases "i < length bytes")
    case True
    have "take chunkSize (drop i bytes) @ drop (i + chunkSize) bytes = drop i bytes"
      using append_take_drop_id [of chunkSize "drop i bytes"] by (simp add: add.commute)
    then have "fromCharCode (subarray bytes i (i + chunkSize)) @ fromCharCode (drop (i + chunkSize) bytes) = fromCharCode (drop i bytes)"
      by (simp add: subarray_take_drop flip: fromCharCode_append)
    with True "1.IH" show ?thesis by simp
  next
    case False
    then show ?thesis by (simp add: fromCharCode_def)
  qed
qed

text \<open>
  Claim C9. For every \<open>Int16Array\<close>, the chunked loop of \<open>encodeBase64\<close> (slices of
  \<open>0x8000\<close> bytes appended to one binary string, then a single \<open>btoa\<close>) returns the
  base64 encoding of the whole underlying buffer: it equals the naive encoding for every
  input, the empty array and lengths that are no multiple of the chunk size included.
\<close>

theorem encodeBase64_chunked_eq_naive: "encodeBase64 input = naive_base64 input"
  by (simp add: encodeBase64_def naive_base64_def encodeBase64_loop_eq del: encodeBase64_loop.simps)

section \<open>The message handler\<close>

text \<open>
  Claim C1, as amended. For every \<^verbatim>\<open>transcript_delta\<close> event the handler appends the
  event's text to the displayed transcript and changes nothing else; the result is the same
  whatever the \<^verbatim>\<open>is_correction\<close> flag says, since the handler does not read it. An
  event marked as a correction therefore replaces no displayed text.
\<close>

theorem onmessage_transcript_delta_appends:
  assumes "ptype p = Some ''transcript_delta''"
  shows "onmessage (Payload p) s = s\<lparr>transcript := js_concat (transcript s) (ptext p)\<rparr> \<and>
         (\<forall>t. ptext p = Some t \<longrightarrow> transcript (onmessage (Payload p) s) = transcript s @ t) \<and>
         onmessage (Payload (p\<lparr>is_correction := c\<rparr>)) s = onmessage (Payload p) s"
  using assms by (simp add: js_concat_def)

theorem onmessage_transcript_delta_appends_witness:
  "ptype \<lparr>ptype = Some ''transcript_delta'', ptext = Some ''on the mat'', pmessage = None,
            is_correction = Some False\<rparr> = Some ''transcript_delta'' \<and>
   transcript (onmessage (Payload \<lparr>ptype = Some ''transcript_delta'', ptext = Some ''on the mat'', pmessage = None,
            is_correction = Some False\<rparr>)
     \<lparr>audioFile = None, targetLang = ''Arabic'', transcript = ''the cat sat '', translation = '''',
      loading = Some Recording, error = '''', status = ''Listening...''\<rparr>) = ''the cat sat on the mat''"
  using onmessage_transcript_delta_appends [of "\<lparr>ptype = Some ''transcript_delta'', ptext = Some ''on the mat'', pmessage = None,
            is_correction = Some False\<rparr>" "\<lparr>audioFile = None, targetLang = ''Arabic'', transcript = ''the cat sat '', translation = '''',
      loading = Some Recording, error = '''', status = ''Listening...''\<rparr>" "Some False"]
  by (simp add: js_concat_def)

text \<open>
  The claim as stated fails: with \<^verbatim>\<open>the cat sat on teh\<close> on display, an event marked
  as a correction and carrying \<^verbatim>\<open>the cat sat on the mat\<close> leaves the old text in place
  and appends the new one after it, exactly as the same event not marked as a correction.
\<close>

theorem onmessage_correction_counterexample:
  "transcript (onmessage
      (Payload \<lparr>ptype = Some ''transcript_delta'', ptext = Some ''the cat sat on the mat'',
                pmessage = None, is_correction = Some True\<rparr>)
      \<lparr>audioFile = None, targetLang = ''Arabic'', transcript = ''the cat sat on teh'',
       translation = '''', loading = Some Recording, error = '''', status = ''Listening...''\<rparr>)
     = ''the cat sat on teh'' @ ''the cat sat on the mat'' \<and>
   onmessage
      (Payload \<lparr>ptype = Some ''transcript_delta'', ptext = Some ''the cat sat on the mat'',
                pmessage = None, is_correction = Some True\<rparr>)
      \<lparr>audioFile = None, targetLang = ''Arabic'', transcript = ''the cat sat on teh'',
       translation = '''', loading = Some Recording, error = '''', status = ''Listening...''\<rparr>
   = onmessage
      (Payload \<lparr>ptype = Some ''transcript_delta'', ptext = Some ''the cat sat on the mat'',
                pmessage = None, is_correction = Some False\<rparr>)
      \<lparr>audioFile = None, targetLang = ''Arabic'', transcript = ''the cat sat on teh'',
       translation = '''', loading = Some Recording, error = '''', status = ''Listening...''\<rparr>"
  by (simp add: js_concat_def)

section \<open>The one-shot upload flow\<close>

lemma read_loop_values:
  "read_loop dec d (map ReadValue vals @ ReadDone # rest) s =
     Some (None, s\<lparr>translation := translation s @ concat (decoded_chunks dec d vals)\<rparr>)"
proof (induction dec d vals arbitrary: s rule: decoded_chunks.induct)
  case (1 dec d)
  then show ?case by simp
next
  case (2 dec d vs)
  then show ?case by simp
next
  case (3 dec d v vs)
  then show ?case by (simp split: prod.splits)
qed

text \<open>
  Claim C6. After a successful transcription and an \<^verbatim>\<open>ok\<close> translate response,
  \<^verbatim>\<open>processAudio\<close> returns and the displayed translation is: the concatenation of the
  decoded chunks in arrival order when the body has a reader whose reads are values
  followed by the end of the stream; the whole response body when there is no reader. In
  both forms the two requests were issued and no error is shown.
\<close>

theorem processAudio_translate_forms:
  assumes "transcribe_fetch env = Fulfilled transcribeRes" and "ok transcribeRes" and "body_text transcribeRes = Fulfilled transcribeText"
    and "JSON_text env transcribeText = Fulfilled recognized"
    and "translate_fetch env = Fulfilled translateRes" and "ok translateRes"
  shows "(body_reader translateRes = Some (map ReadValue vals @ ReadDone # rest) \<longrightarrow>
            (\<exists>s'. processAudio env (Some f) s =
                     Some (s', [TranscribeRequest f, TranslateRequest recognized (targetLang s)]) \<and>
                  translation s' =
                    concat (decoded_chunks (decoder_decode env) (decoder_init env) vals) \<and>
                  error s' = [])) \<and>
         (body_reader translateRes = None \<and> body_text translateRes = Fulfilled body \<longrightarrow>
            (\<exists>s'. processAudio env (Some f) s =
                     Some (s', [TranscribeRequest f, TranslateRequest recognized (targetLang s)]) \<and>
                  translation s' = body \<and> error s' = []))"
  using assms by (simp add: processAudio_def processAudio_try_def read_loop_values)

lemma example_decoded:
  "concat (decoded_chunks ascii_decode () [Some [109, 97, 114], None, Some [104, 97]]) = ''marha''"
  by code_simp

theorem processAudio_translate_forms_witness:
  "(\<exists>s'. processAudio
            (example_env (example_response True 200 ''{text: hello}'' None)
               (example_response True 200 []
                  (Some [ReadValue (Some [109, 97, 114]), ReadValue None, ReadValue (Some [104, 97]), ReadDone])))
            (Some (File ''a.wav'')) example_state
          = Some (s', [TranscribeRequest (File ''a.wav''), TranslateRequest ''hello'' ''Arabic'']) \<and>
        translation s' = ''marha'') \<and>
   (\<exists>s'. processAudio
            (example_env (example_response True 200 ''{text: hello}'' None)
               (example_response True 200 ''marhaban'' None))
            (Some (File ''a.wav'')) example_state
          = Some (s', [TranscribeRequest (File ''a.wav''), TranslateRequest ''hello'' ''Arabic'']) \<and>
        translation s' = ''marhaban'')"
proof -
  let ?t1 = "example_response True 200 ''{text: hello}'' None"
  let ?ra = "example_response True 200 []
      (Some [ReadValue (Some [109, 97, 114]), ReadValue None, ReadValue (Some [104, 97]), ReadDone])"
  let ?rb = "example_response True 200 ''marhaban'' None"
  from processAudio_translate_forms [where env = "example_env ?t1 ?ra" and transcribeRes = "?t1"
      and transcribeText = "''{text: hello}''" and recognized = "''hello''" and translateRes = "?ra"
      and f = "File ''a.wav''" and s = example_state
      and vals = "[Some [109, 97, 114], None, Some [104, 97]]" and rest = "[]"]
  have "\<exists>s'. processAudio (example_env ?t1 ?ra) (Some (File ''a.wav'')) example_state
          = Some (s', [TranscribeRequest (File ''a.wav''), TranslateRequest ''hello'' ''Arabic'']) \<and>
        translation s' = ''marha''"
    by (auto simp add: example_env_def example_response_def example_state_def example_decoded
        simp del: decoded_chunks.simps)
  moreover
  from processAudio_translate_forms [where env = "example_env ?t1 ?rb" and transcribeRes = "?t1"
      and transcribeText = "''{text: hello}''" and recognized = "''hello''" and translateRes = "?rb"
      and f = "File ''a.wav''" and s = example_state and body = "''marhaban''"]
  have "\<exists>s'. processAudio (example_env ?t1 ?rb) (Some (File ''a.wav'')) example_state
          = Some (s', [TranscribeRequest (File ''a.wav''), TranslateRequest ''hello'' ''Arabic'']) \<and>
        translation s' = ''marhaban''"
    by (auto simp add: example_env_def example_response_def example_state_def)
  ultimately show ?thesis by blast
qed

text \<open>
  Claim C10. When the transcribe response is not \<^verbatim>\<open>ok\<close> (and its body can be read),
  \<^verbatim>\<open>processAudio\<close> returns having issued the transcribe request only; the displayed
  translation is empty, the error shown is the response body, or \<^verbatim>\<open>Transcribe\<close>
  followed by the status code when the body is empty, and the loading and status
  indicators are cleared. The same holds for the earlier revision of the component.
\<close>

theorem processAudio_transcribe_not_ok:
  assumes "transcribe_fetch env = Fulfilled r" and "\<not> ok r" and "body_text r = Fulfilled body"
  shows "(\<exists>s'. processAudio env (Some f) s = Some (s', [TranscribeRequest f]) \<and>
           translation s' = [] \<and>
           error s' = (if body = [] then ''Transcribe '' @ decimal_digits (http_status r) else body) \<and>
           loading s' = None \<and> status s' = []) \<and>
         (\<exists>s'. processAudio_rev0 env (Some f) s = Some (s', [TranscribeRequest f]) \<and>
           translation s' = [] \<and>
           error s' = (if body = [] then ''Transcribe '' @ decimal_digits (http_status r) else body) \<and>
           loading s' = None \<and> status s' = [])"
  using assms by (simp add: processAudio_def processAudio_rev0_def processAudio_try_def)

lemma decimal_digits_500: "decimal_digits 500 = ''500''"
  by code_simp

theorem processAudio_transcribe_not_ok_witness:
  "(\<exists>s'. processAudio
       (example_env (example_response False 500 [] None) (example_response True 200 ''marhaban'' None))
       (Some (File ''a.wav'')) example_state = Some (s', [TranscribeRequest (File ''a.wav'')]) \<and>
      translation s' = [] \<and> error s' = ''Transcribe 500'' \<and> loading s' = None \<and> status s' = []) \<and>
   (\<exists>s'. processAudio
       (example_env (example_response False 500 ''model not loaded'' None) (example_response True 200 ''marhaban'' None))
       (Some (File ''a.wav'')) example_state = Some (s', [TranscribeRequest (File ''a.wav'')]) \<and>
      translation s' = [] \<and> error s' = ''model not loaded'' \<and> loading s' = None \<and> status s' = [])"
  using
    processAudio_transcribe_not_ok [where
      env = "example_env (example_response False 500 [] None) (example_response True 200 ''marhaban'' None)"
      and r = "example_response False 500 [] None" and body = "[]" and f = "File ''a.wav''"
      and s = example_state]
    processAudio_transcribe_not_ok [where
      env = "example_env (example_response False 500 ''model not loaded'' None) (example_response True 200 ''marhaban'' None)"
      and r = "example_response False 500 ''model not loaded'' None" and body = "''model not loaded''"
      and f = "File ''a.wav''" and s = example_state]
  by (auto simp add: example_env_def example_response_def decimal_digits_500)

section \<open>The recording session\<close>











lemma sent_on_upd [simp]:
  "sent_on n (c\<lparr>sockets := x\<rparr>) = sent_on n c"
  "sent_on n (c\<lparr>wsRef := y\<rparr>) = sent_on n c"
  "sent_on n (c\<lparr>awaiting_mic := z\<rparr>) = sent_on n c"
  "sent_on n (c\<lparr>processors := u\<rparr>) = sent_on n c"
  "sent_on n (c\<lparr>processorRef := v\<rparr>) = sent_on n c"
  by (simp_all add: sent_on_def)

lemma conn_inv_awaiting [simp]: "conn_inv (c\<lparr>awaiting_mic := z\<rparr>) = conn_inv c"
  by (simp add: conn_inv_def sock_inv_def entry_inv_def)

lemma conn_inv_processors [simp]: "conn_inv (c\<lparr>processors := u\<rparr>) = conn_inv c"
  by (simp add: conn_inv_def sock_inv_def entry_inv_def)

lemma conn_inv_processorRef [simp]: "conn_inv (c\<lparr>processorRef := v\<rparr>) = conn_inv c"
  by (simp add: conn_inv_def sock_inv_def entry_inv_def)

lemma conn_inv_disconnect [simp]: "conn_inv (disconnect p c) = conn_inv c"
  by (simp add: disconnect_def)










lemma wsRef_ws_send [simp]: "wsRef (ws_send w m c) = wsRef c"
  by (simp add: ws_send_def split: option.splits)








lemma origin_upd [simp]:
  "origin es (c\<lparr>wsRef := y\<rparr>) = origin es c"
  "origin es (c\<lparr>awaiting_mic := z\<rparr>) = origin es c"
  "origin es (c\<lparr>processors := u\<rparr>) = origin es c"
  "origin es (c\<lparr>processorRef := v\<rparr>) = origin es c"
  by (simp_all add: origin_def)



lemma origin_disconnect [simp]: "origin es (disconnect p c) = origin es c"
  by (simp add: disconnect_def)










section \<open>Reconciliation and the frozen boundary\<close>

lemma reconcile_frozen:
  assumes "frozen_boundary t \<le> length (running t)"
  shows "frozen_boundary (reconcile f t) = frozen_boundary t \<and>
         frozen_boundary t \<le> length (running (reconcile f t)) \<and>
         take (frozen_boundary t) (running (reconcile f t)) = take (frozen_boundary t) (running t)"
proof (cases "conflict f t = 0")
  case True
  then have "frozen_boundary t \<le> length (running t) - superseded f t"
    using assms by (simp add: conflict_def)
  with True show ?thesis by (simp add: reconcile_def)
next
  case False
  with assms show ?thesis by (simp add: reconcile_def)
qed

lemma apply_event_frozen:
  assumes "frozen_boundary t \<le> length (running t)"
  shows "frozen_boundary t \<le> frozen_boundary (apply_event e t) \<and>
         frozen_boundary (apply_event e t) \<le> length (running (apply_event e t)) \<and>
         take (frozen_boundary t) (running (apply_event e t)) = take (frozen_boundary t) (running t)"
proof (cases e)
  case (Reconciled f)
  with reconcile_frozen [OF assms, of f] show ?thesis by simp
next
  case (Accepted k)
  with assms show ?thesis by simp
qed

lemma apply_events_snoc: "apply_events (es @ [e]) t = apply_event e (apply_events es t)"
  by (simp add: apply_events_def)

lemma apply_events_append: "apply_events (es @ es') t = apply_events es' (apply_events es t)"
  by (simp add: apply_events_def)

lemma apply_events_frozen:
  assumes "frozen_boundary t \<le> length (running t)"
  shows "frozen_boundary t \<le> frozen_boundary (apply_events es t) \<and>
         frozen_boundary (apply_events es t) \<le> length (running (apply_events es t)) \<and>
         take (frozen_boundary t) (running (apply_events es t)) = take (frozen_boundary t) (running t)"
proof (induction es rule: rev_induct)
  case Nil
  with assms show ?case by (simp add: apply_events_def)
next
  case (snoc e es)
  let ?u = "apply_events es t"
  from snoc have u: "frozen_boundary t \<le> frozen_boundary ?u" "frozen_boundary ?u \<le> length (running ?u)"
    "take (frozen_boundary t) (running ?u) = take (frozen_boundary t) (running t)" by simp_all
  from apply_event_frozen [OF u(2), of e]
  have v: "frozen_boundary ?u \<le> frozen_boundary (apply_event e ?u)"
    "frozen_boundary (apply_event e ?u) \<le> length (running (apply_event e ?u))"
    "take (frozen_boundary ?u) (running (apply_event e ?u)) = take (frozen_boundary ?u) (running ?u)"
    by simp_all
  have "take (frozen_boundary t) (running (apply_event e ?u)) = take (frozen_boundary t) (take (frozen_boundary ?u) (running (apply_event e ?u)))"
    using u(1) by (simp add: min_def)
  also have "\<dots> = take (frozen_boundary t) (take (frozen_boundary ?u) (running ?u))"
    by (simp only: v(3))
  also have "\<dots> = take (frozen_boundary t) (running ?u)"
    using u(1) by (simp add: min_def)
  finally show ?case using u v by (simp add: apply_events_snoc)
qed

text \<open>
  Claim C2. In every session of the modelled relay, and for every sequence of later events
  (fragments reconciled, chunks accepted), the frozen boundary never moves back and the
  text before it stays what it was: no later reconciliation alters frozen text. A
  correction whose span reaches into the frozen text leaves the frozen text in place,
  discards its conflicting prefix and applies the rest.
\<close>

theorem frozen_text_never_altered:
  "frozen_boundary (apply_events es new_transcript)
      \<le> frozen_boundary (apply_events (es @ later) new_transcript) \<and>
   take (frozen_boundary (apply_events es new_transcript))
        (running (apply_events (es @ later) new_transcript))
     = frozen_text (apply_events es new_transcript) \<and>
   (0 < conflict f (apply_events es new_transcript) \<longrightarrow>
      running (reconcile f (apply_events es new_transcript))
        = frozen_text (apply_events es new_transcript)
            @ drop (conflict f (apply_events es new_transcript)) (fragment_text f))"
proof -
  let ?t = "apply_events es new_transcript"
  have "frozen_boundary new_transcript \<le> length (running new_transcript)"
    by (simp add: new_transcript_def)
  from apply_events_frozen [OF this, of es]
  have wf: "frozen_boundary ?t \<le> length (running ?t)" by simp
  from apply_events_frozen [OF wf, of later]
  show ?thesis
    by (simp add: apply_events_append frozen_text_def reconcile_def)
qed

lemma example_reconcile:
  "conflict \<lparr>fragment_text = ''cat sat on the mat quietly'', replaces_tail = True,
              replaced_span = 14, seq_no = 2\<rparr>
     (apply_events [Reconciled \<lparr>fragment_text = ''the cat sat on the'', replaces_tail = False,
                                 replaced_span = 0, seq_no = 1\<rparr>, Accepted 12] new_transcript) = 8 \<and>
   frozen_text
     (apply_events [Reconciled \<lparr>fragment_text = ''the cat sat on the'', replaces_tail = False,
                                 replaced_span = 0, seq_no = 1\<rparr>, Accepted 12] new_transcript)
     = ''the cat sat ''"
  by code_simp

theorem frozen_text_never_altered_witness:
  "running (reconcile \<lparr>fragment_text = ''cat sat on the mat quietly'', replaces_tail = True,
                        replaced_span = 14, seq_no = 2\<rparr>
     (apply_events [Reconciled \<lparr>fragment_text = ''the cat sat on the'', replaces_tail = False,
                                 replaced_span = 0, seq_no = 1\<rparr>, Accepted 12] new_transcript))
     = ''the cat sat on the mat quietly''"
  using frozen_text_never_altered [of
      "[Reconciled \<lparr>fragment_text = ''the cat sat on the'', replaces_tail = False,
                      replaced_span = 0, seq_no = 1\<rparr>, Accepted 12]"
      "[]"
      "\<lparr>fragment_text = ''cat sat on the mat quietly'', replaces_tail = True,
        replaced_span = 14, seq_no = 2\<rparr>"]
    example_reconcile
  by simp

section \<open>The Chunker's time-based flush\<close>

text \<open>
  Claim C7 (scenario B). With a size threshold of 40 characters and an interval of 0.7
  seconds, a span of 35 characters that holds the minimum of alphanumeric characters and
  has waited at least the interval triggers the time-based flush of the modelled Chunker,
  although the size threshold is not reached.
\<close>

theorem scenario_B_time_flush:
  assumes "chunk_chars cfg = 40" and "chunk_interval cfg = 7 / 10"
    and "length candidate = 35" and "min_alnum cfg \<le> alnum_count candidate"
    and "chunk_interval cfg \<le> elapsed"
  shows "chunker_trigger cfg candidate elapsed False = Some IntervalElapsed \<and>
         \<not> chunk_chars cfg \<le> length candidate"
  using assms by (auto simp: chunker_trigger_def)

lemma example_span: "length ''the quick brown fox jumps over lazy'' = 35 \<and>
    alnum_count ''the quick brown fox jumps over lazy'' = 29"
  by code_simp

theorem scenario_B_time_flush_witness:
  "chunker_trigger readme_config ''the quick brown fox jumps over lazy'' 1 False = Some IntervalElapsed"
  using scenario_B_time_flush [of readme_config "''the quick brown fox jumps over lazy''" 1] example_span
  by (simp add: readme_config_def)


section \<open>The order of translation fragments\<close>

lemma sorted_same_chunk: "sorted (map fst (filter (\<lambda>(n, x). n = k) xs))"
  by (induction xs) auto

lemma queue_inv_release:
  assumes "queue_inv q" and "head_chunk q \<in> set (finished q)"
  shows "queue_inv (release_next q)"
  using assms unfolding queue_inv_def release_next_def
  by (auto simp: sorted_append sorted_same_chunk less_Suc_eq le_Suc_eq)

lemma queue_inv_advance: "queue_inv q \<Longrightarrow> queue_inv (advance_head q)"
proof (induction q rule: advance_head.induct)
  case (1 q)
  show ?case
  proof (cases "head_chunk q \<in> set (finished q)")
    case True
    with 1 show ?thesis by (simp add: advance_head.simps [of q] queue_inv_release)
  next
    case False
    with 1 show ?thesis by (simp add: advance_head.simps [of q])
  qed
qed

lemma queue_inv_step: "queue_inv q \<Longrightarrow> queue_inv (relay_step e q)"
proof (cases e)
  case Submit
  assume "queue_inv q"
  with Submit show ?thesis by (auto simp: queue_inv_def)
next
  case (Arrive n x)
  assume q: "queue_inv q"
  show ?thesis
  proof (cases "n < submitted q \<and> n \<notin> set (finished q)")
    case True
    with q have "head_chunk q \<le> n" unfolding queue_inv_def by (meson not_le_imp_less)
    with q True Arrive show ?thesis
      by (auto simp: queue_inv_def sorted_append)
  next
    case False
    with q Arrive show ?thesis by auto
  qed
next
  case (Finish n)
  assume q: "queue_inv q"
  show ?thesis
  proof (cases "n < submitted q \<and> n \<notin> set (finished q)")
    case True
    with q have "queue_inv (q\<lparr>finished := finished q @ [n]\<rparr>)"
      by (auto simp: queue_inv_def)
    with True Finish show ?thesis by (simp add: queue_inv_advance)
  next
    case False
    with q Finish show ?thesis by auto
  qed
qed

lemma relay_run_snoc: "relay_run (es @ [e]) q = relay_step e (relay_run es q)"
  by (simp add: relay_run_def)

lemma queue_inv_run: "queue_inv (relay_run es new_queue)"
proof (induction es rule: rev_induct)
  case Nil
  then show ?case by (simp add: relay_run_def queue_inv_def new_queue_def)
next
  case (snoc e es)
  then show ?case by (simp add: relay_run_snoc queue_inv_step)
qed

lemma release_next_grows:
  "(\<exists>ys. outbound (release_next q) = outbound q @ ys) \<and> kept (release_next q) = kept q"
  by (auto simp: release_next_def kept_def)

lemma advance_grows:
  "(\<exists>ys. outbound (advance_head q) = outbound q @ ys) \<and> kept (advance_head q) = kept q"
proof (induction q rule: advance_head.induct)
  case (1 q)
  show ?case
  proof (cases "head_chunk q \<in> set (finished q)")
    case True
    with 1 release_next_grows [of q] show ?thesis
      by (auto simp: advance_head.simps [of q])
  next
    case False
    then show ?thesis by (simp add: advance_head.simps [of q])
  qed
qed

lemma relay_step_grows:
  "(\<exists>ys. outbound (relay_step e q) = outbound q @ ys) \<and> kept q \<subseteq> kept (relay_step e q)"
proof (cases e)
  case Submit
  then show ?thesis by (simp add: kept_def)
next
  case (Arrive n x)
  then show ?thesis by (auto simp: kept_def)
next
  case (Finish n)
  show ?thesis
  proof (cases "n < submitted q \<and> n \<notin> set (finished q)")
    case True
    with Finish advance_grows [of "q\<lparr>finished := finished q @ [n]\<rparr>"] show ?thesis
      by (auto simp: kept_def)
  next
    case False
    with Finish show ?thesis by auto
  qed
qed

lemma relay_run_append: "relay_run (es @ es') q = relay_run es' (relay_run es q)"
  by (simp add: relay_run_def)

lemma relay_run_grows:
  "(\<exists>ys. outbound (relay_run es q) = outbound q @ ys) \<and> kept q \<subseteq> kept (relay_run es q)"
proof (induction es rule: rev_induct)
  case Nil
  then show ?case by (simp add: relay_run_def)
next
  case (snoc e es)
  with relay_step_grows [of e "relay_run es q"] show ?case
    by (auto simp: relay_run_snoc)
qed

lemma advance_head_fields:
  "submitted (advance_head q) = submitted q \<and> finished (advance_head q) = finished q"
proof (induction q rule: advance_head.induct)
  case (1 q)
  show ?case
  proof (cases "head_chunk q \<in> set (finished q)")
    case True
    with 1 show ?thesis by (simp add: advance_head.simps [of q] release_next_def)
  next
    case False
    then show ?thesis by (simp add: advance_head.simps [of q])
  qed
qed

lemma advance_head_stops: "head_chunk (advance_head q) \<notin> set (finished (advance_head q))"
proof (induction q rule: advance_head.induct)
  case (1 q)
  show ?case
  proof (cases "head_chunk q \<in> set (finished q)")
    case True
    with 1 show ?thesis by (simp add: advance_head.simps [of q])
  next
    case False
    then show ?thesis by (simp add: advance_head.simps [of q])
  qed
qed

lemma of_chunk_append: "of_chunk n (xs @ ys) = of_chunk n xs @ of_chunk n ys"
  by (simp add: of_chunk_def)

lemma of_chunk_same:
  "of_chunk n (filter (\<lambda>(m, x). m = k) xs) = (if n = k then of_chunk n xs else [])"
  by (auto simp: of_chunk_def filter_empty_conv intro!: filter_cong)

lemma of_chunk_other:
  "of_chunk n (filter (\<lambda>(m, x). m \<noteq> k) xs) = (if n = k then [] else of_chunk n xs)"
  by (auto simp: of_chunk_def filter_empty_conv intro!: filter_cong)

lemma of_chunk_release:
  "of_chunk n (outbound (release_next q) @ held (release_next q)) = of_chunk n (outbound q @ held q)"
  by (simp add: release_next_def of_chunk_append of_chunk_same of_chunk_other)

lemma of_chunk_advance:
  "of_chunk n (outbound (advance_head q) @ held (advance_head q)) = of_chunk n (outbound q @ held q)"
proof (induction q rule: advance_head.induct)
  case (1 q)
  show ?case
  proof (cases "head_chunk q \<in> set (finished q)")
    case True
    with 1 of_chunk_release [of n q] show ?thesis by (simp add: advance_head.simps [of q])
  next
    case False
    then show ?thesis by (simp add: advance_head.simps [of q])
  qed
qed

lemma of_chunk_held_none:
  assumes "queue_inv q" and "n \<le> head_chunk q"
  shows "of_chunk n (held q) = []"
  using assms by (auto simp: queue_inv_def of_chunk_def filter_empty_conv)

lemma relay_run_Cons: "relay_run (e # es) q = relay_run es (relay_step e q)"
  by (simp add: relay_run_def)

lemma relay_step_arrivals:
  assumes "queue_inv q"
  shows "of_chunk n (outbound (relay_step e q) @ held (relay_step e q))
           @ of_chunk n (arrivals_from (submitted (relay_step e q)) (finished (relay_step e q)) es)
         = of_chunk n (outbound q @ held q)
           @ of_chunk n (arrivals_from (submitted q) (finished q) (e # es))"
proof (cases e)
  case Submit
  then show ?thesis by simp
next
  case (Arrive m x)
  show ?thesis
  proof (cases "m < submitted q \<and> m \<notin> set (finished q)")
    case False
    with Arrive show ?thesis by auto
  next
    case True
    show ?thesis
    proof (cases "m = head_chunk q")
      case h: True
      show ?thesis
      proof (cases "n = m")
        case same: True
        with assms h have "of_chunk n (held q) = []" by (simp add: of_chunk_held_none)
        with True h same Arrive show ?thesis
          by (simp add: of_chunk_append) (simp add: of_chunk_def)
      next
        case other: False
        with True h Arrive show ?thesis
          by (simp add: of_chunk_append) (simp add: of_chunk_def)
      qed
    next
      case False
      with True Arrive show ?thesis
        by (auto simp: of_chunk_append) (simp_all add: of_chunk_def)
    qed
  qed
next
  case (Finish m)
  show ?thesis
  proof (cases "m < submitted q \<and> m \<notin> set (finished q)")
    case False
    with Finish show ?thesis by auto
  next
    case True
    with Finish of_chunk_advance [of n "q\<lparr>finished := finished q @ [m]\<rparr>"] show ?thesis
      by (simp add: advance_head_fields)
  qed
qed

lemma relay_run_arrivals:
  "queue_inv q \<Longrightarrow>
   of_chunk n (outbound (relay_run es q) @ held (relay_run es q))
     = of_chunk n (outbound q @ held q) @ of_chunk n (arrivals_from (submitted q) (finished q) es)"
proof (induction es arbitrary: q)
  case Nil
  then show ?case by (simp add: relay_run_def of_chunk_def)
next
  case (Cons e es)
  from Cons.prems have "queue_inv (relay_step e q)" by (rule queue_inv_step)
  from Cons.IH [OF this] relay_step_arrivals [OF Cons.prems, of n e es]
  show ?case by (simp add: relay_run_Cons)
qed

lemma head_unfinished_step:
  "head_chunk q \<notin> set (finished q) \<Longrightarrow>
   head_chunk (relay_step e q) \<notin> set (finished (relay_step e q))"
  by (cases e) (auto simp: advance_head_stops)

lemma head_unfinished_run:
  "head_chunk (relay_run es new_queue) \<notin> set (finished (relay_run es new_queue))"
proof (induction es rule: rev_induct)
  case Nil
  then show ?case by (simp add: relay_run_def new_queue_def)
next
  case (snoc e es)
  then show ?case by (simp add: relay_run_snoc head_unfinished_step)
qed

text \<open>
  Claim C3. Whatever the order in which the upstream responses arrive and end, the
  modelled queue releases translation fragments in chunk order and loses none. For every
  chunk, the fragments released and held are exactly the fragments that arrived for it,
  in arrival order; all of them have been released as soon as every earlier chunk has
  finished. So when a fragment of a chunk is out, every earlier chunk has finished, none
  of its fragments is held and all that arrived for it are out before: all fragments of
  chunk N are emitted before any fragment of chunk N+1. Released fragments are never
  retracted.
\<close>

theorem translation_chunk_order:
  "sorted (map fst (outbound (relay_run es new_queue))) \<and>
   of_chunk n (outbound (relay_run es new_queue) @ held (relay_run es new_queue))
     = of_chunk n (arrivals es) \<and>
   ((\<forall>k < n. k \<in> set (finished (relay_run es new_queue))) \<longrightarrow>
      of_chunk n (outbound (relay_run es new_queue)) = of_chunk n (arrivals es)) \<and>
   (\<forall>m x. (m, x) \<in> set (outbound (relay_run es new_queue)) \<and> n < m \<longrightarrow>
      n \<in> set (finished (relay_run es new_queue)) \<and>
      (\<forall>y. (n, y) \<notin> set (held (relay_run es new_queue))) \<and>
      of_chunk n (outbound (relay_run es new_queue)) = of_chunk n (arrivals es)) \<and>
   (\<exists>ys. outbound (relay_run (es @ later) new_queue) = outbound (relay_run es new_queue) @ ys) \<and>
   kept (relay_run es new_queue) \<subseteq> kept (relay_run (es @ later) new_queue)"
proof -
  let ?q = "relay_run es new_queue"
  have i: "queue_inv ?q" by (rule queue_inv_run)
  have "queue_inv new_queue" by (simp add: queue_inv_def new_queue_def)
  from relay_run_arrivals [OF this, of n es]
  have all: "of_chunk n (outbound ?q @ held ?q) = of_chunk n (arrivals es)"
    by (simp add: new_queue_def arrivals_def of_chunk_def)
  have out: "of_chunk n (outbound ?q) = of_chunk n (arrivals es)" if "n \<le> head_chunk ?q"
    using all of_chunk_held_none [OF i that] by (simp add: of_chunk_append)
  have c: "of_chunk n (outbound ?q) = of_chunk n (arrivals es)"
    if "\<forall>k < n. k \<in> set (finished ?q)"
  proof -
    have "n \<le> head_chunk ?q"
    proof (rule ccontr)
      assume "\<not> n \<le> head_chunk ?q"
      with that have "head_chunk ?q \<in> set (finished ?q)" by simp
      with head_unfinished_run [of es] show False by simp
    qed
    then show ?thesis by (rule out)
  qed
  have d: "n \<in> set (finished ?q) \<and> (\<forall>y. (n, y) \<notin> set (held ?q)) \<and>
      of_chunk n (outbound ?q) = of_chunk n (arrivals es)"
    if "(m, x) \<in> set (outbound ?q)" and "n < m" for m x
  proof -
    from i that(1) have "m \<le> head_chunk ?q" by (auto simp: queue_inv_def)
    with that(2) have n: "n < head_chunk ?q" by simp
    with i have "n \<in> set (finished ?q)" "\<forall>y. (n, y) \<notin> set (held ?q)"
      by (auto simp: queue_inv_def)
    moreover from n have "of_chunk n (outbound ?q) = of_chunk n (arrivals es)"
      by (intro out) simp
    ultimately show ?thesis by simp
  qed
  from i have s: "sorted (map fst (outbound ?q))" by (simp add: queue_inv_def)
  from relay_run_grows [of later ?q]
  have g: "(\<exists>ys. outbound (relay_run (es @ later) new_queue) = outbound ?q @ ys)"
    "kept ?q \<subseteq> kept (relay_run (es @ later) new_queue)"
    by (simp_all add: relay_run_append)
  from s all c d g show ?thesis by blast
qed

lemma example_queue:
  "outbound (relay_run [Submit, Submit, Submit, Arrive 1 ''b1'', Arrive 0 ''a1'', Arrive 2 ''c1'',
       Finish 2, Arrive 1 ''b2'', Finish 1, Arrive 0 ''a2'', Finish 0] new_queue)
     = [(0, ''a1''), (0, ''a2''), (1, ''b1''), (1, ''b2''), (2, ''c1'')] \<and>
   held (relay_run [Submit, Submit, Submit, Arrive 1 ''b1'', Arrive 0 ''a1'', Arrive 2 ''c1'',
       Finish 2, Arrive 1 ''b2'', Finish 1, Arrive 0 ''a2'', Finish 0] new_queue) = [] \<and>
   of_chunk 1 (arrivals [Submit, Submit, Submit, Arrive 1 ''b1'', Arrive 0 ''a1'', Arrive 2 ''c1'',
       Finish 2, Arrive 1 ''b2'', Finish 1, Arrive 0 ''a2'', Finish 0]) = [(1, ''b1''), (1, ''b2'')]"
  by code_simp

theorem translation_chunk_order_witness:
  "outbound (relay_run [Submit, Submit, Submit, Arrive 1 ''b1'', Arrive 0 ''a1'', Arrive 2 ''c1'',
       Finish 2, Arrive 1 ''b2'', Finish 1, Arrive 0 ''a2'', Finish 0] new_queue)
     = [(0, ''a1''), (0, ''a2''), (1, ''b1''), (1, ''b2''), (2, ''c1'')] \<and>
   1 \<in> set (finished (relay_run [Submit, Submit, Submit, Arrive 1 ''b1'', Arrive 0 ''a1'',
       Arrive 2 ''c1'', Finish 2, Arrive 1 ''b2'', Finish 1, Arrive 0 ''a2'', Finish 0] new_queue)) \<and>
   of_chunk 1 (outbound (relay_run [Submit, Submit, Submit, Arrive 1 ''b1'', Arrive 0 ''a1'',
       Arrive 2 ''c1'', Finish 2, Arrive 1 ''b2'', Finish 1, Arrive 0 ''a2'', Finish 0] new_queue))
     = [(1, ''b1''), (1, ''b2'')]"
proof -
  let ?es = "[Submit, Submit, Submit, Arrive 1 ''b1'', Arrive 0 ''a1'',
       Arrive 2 ''c1'', Finish 2, Arrive 1 ''b2'', Finish 1, Arrive 0 ''a2'', Finish 0]"
  let ?q = "relay_run ?es new_queue"
  note t = translation_chunk_order [of ?es 1 "[]"]
  from t have "\<forall>m x. (m, x) \<in> set (outbound ?q) \<and> 1 < m \<longrightarrow>
      1 \<in> set (finished ?q) \<and> (\<forall>y. (1, y) \<notin> set (held ?q)) \<and>
      of_chunk 1 (outbound ?q) = of_chunk 1 (arrivals ?es)"
    by blast
  then have "(2, ''c1'') \<in> set (outbound ?q) \<and> (1 :: nat) < 2 \<longrightarrow>
      1 \<in> set (finished ?q) \<and> of_chunk 1 (outbound ?q) = of_chunk 1 (arrivals ?es)"
    by blast
  with example_queue have "1 \<in> set (finished ?q) \<and> of_chunk 1 (outbound ?q) = [(1, ''b1''), (1, ''b2'')]"
    by simp
  with example_queue show ?thesis by simp
qed

end
